theory Spec2Isabelle
  imports Complex_Main "HOL-Library.Char_ord" "HOL-Library.List_Lexorder" "HOL-Library.Sublist"
begin

section \<open>Twitch2YT: the relay script, embedded\<close>

text \<open>
  The development follows \<^verbatim>\<open>src/Twitch2YT.py\<close> top to bottom. Pure helpers
  (\<^verbatim>\<open>get_ffmpeg_path\<close>, \<^verbatim>\<open>detect_gpu_encoder\<close>, \<^verbatim>\<open>get_available_streams\<close>,
  \<^verbatim>\<open>pick_best_stream\<close>) are functions of what they read from the outside; the code with
  effects (\<^verbatim>\<open>start_ffmpeg\<close>, the \<^verbatim>\<open>Relay\<close> class, the main block) passes a world
  record along and returns either a value or the exception that left the function.

  Text is \<^typ>\<open>string\<close>: a list of characters, each a code point below 256, compared by
  code point as Python compares \<^verbatim>\<open>str\<close>.
\<close>

subsection \<open>Exceptions\<close>

datatype exn =
  StopIteration | KeyError | TypeError | RuntimeError | OSError | TimeoutExpired
  | KeyboardInterrupt

text \<open>\<^verbatim>\<open>except Exception\<close> catches every exception above but \<^verbatim>\<open>KeyboardInterrupt\<close>
  (a \<^verbatim>\<open>BaseException\<close>); a bare \<^verbatim>\<open>except:\<close> catches all of them.\<close>

definition is_Exception :: "exn \<Rightarrow> bool" where
  "is_Exception e = (e \<noteq> KeyboardInterrupt)"

subsection \<open>Text helpers of the Python library\<close>

text \<open>\<^verbatim>\<open>str.lower\<close> on code points below 256: the ASCII capitals and the Latin-1
  capitals (U+00C0 to U+00DE without the multiplication sign U+00D7) move up by 32.\<close>

definition lower_char :: "char \<Rightarrow> char" where
  "lower_char c =
     (let n = (of_char c :: nat) in
      if (65 \<le> n \<and> n \<le> 90) \<or> (192 \<le> n \<and> n \<le> 222 \<and> n \<noteq> 215)
      then char_of (n + 32) else c)"

definition lower :: "string \<Rightarrow> string" where
  "lower s = map lower_char s"

text \<open>\<^verbatim>\<open>str.isdigit\<close> on code points below 256: the ASCII digits and the superscripts
  two, three and one (U+00B2, U+00B3, U+00B9).\<close>

definition isdigit :: "char \<Rightarrow> bool" where
  "isdigit c =
     (let n = (of_char c :: nat) in (48 \<le> n \<and> n \<le> 57) \<or> n = 178 \<or> n = 179 \<or> n = 185)"

text \<open>\<^verbatim>\<open>needle in text\<close> on strings is \<^const>\<open>sublist\<close>: a contiguous occurrence.\<close>

subsection \<open>FFmpeg helpers\<close>

text \<open>What \<^verbatim>\<open>get_ffmpeg_path\<close> reads: the path \<^verbatim>\<open>imageio_ffmpeg\<close> reports (or the
  exception it raises), \<^verbatim>\<open>os.path.isfile\<close>, \<^verbatim>\<open>os.access(_, os.X_OK)\<close> and
  \<^verbatim>\<open>os.name\<close>.\<close>

record filesystem =
  get_ffmpeg_exe :: "exn + string"
  isfile :: "string \<Rightarrow> bool"
  access_x :: "string \<Rightarrow> bool"
  os_name :: string

definition get_ffmpeg_path :: "filesystem \<Rightarrow> exn + string" where
  "get_ffmpeg_path fs =
     (case get_ffmpeg_exe fs of
        Inl e \<Rightarrow> Inl e
      | Inr path \<Rightarrow>
          if \<not> isfile fs path then Inl RuntimeError
          else if \<not> access_x fs path then
            (if os_name fs = ''nt'' \<and> \<not> suffix ''.exe'' path \<and> isfile fs (path @ ''.exe'')
             then Inr (path @ ''.exe'')
             else Inl RuntimeError)
          else Inr path)"

text \<open>\<^verbatim>\<open>detect_gpu_encoder\<close>: \<open>run\<close> stands for \<^verbatim>\<open>subprocess.run([path, "-encoders"],
  capture_output=True, text=True, check=True).stdout\<close>, which raises or gives the text
  printed. The whole body sits in \<^verbatim>\<open>try: ... except: return None\<close>, and a body that
  ends without \<^verbatim>\<open>return\<close> gives \<^verbatim>\<open>None\<close> as well.\<close>

definition detect_gpu_encoder :: "filesystem \<Rightarrow> (string \<Rightarrow> exn + string) \<Rightarrow> string option" where
  "detect_gpu_encoder fs run =
     (case get_ffmpeg_path fs of
        Inl _ \<Rightarrow> None
      | Inr path \<Rightarrow>
          (case run path of
             Inl _ \<Rightarrow> None
           | Inr stdout \<Rightarrow>
               (let out = lower stdout in
                if sublist ''h264_nvenc'' out then Some ''h264_nvenc''
                else if sublist ''h264_amf'' out \<or> sublist ''h264_qsv'' out then
                  (if sublist ''h264_amf'' out then Some ''h264_amf'' else Some ''h264_qsv'')
                else None)))"

subsection \<open>Stream helpers\<close>

type_synonym label = string

text \<open>A stream object of the resolver: whether it is truthy (\<^verbatim>\<open>if stream:\<close>) and what
  \<^verbatim>\<open>to_url()\<close> gives, \<open>None\<close> when it raises.\<close>

record variant =
  truthy :: bool
  to_url :: "string option"

text \<open>A Python \<^verbatim>\<open>dict\<close> keeps its entries in insertion order and has no key twice: a
  list of pairs, read with \<^const>\<open>map_of\<close>.

  \<^verbatim>\<open>get_available_streams\<close>: the argument is what \<^verbatim>\<open>streamlink.streams(...)\<close> did,
  raise or return its dictionary.\<close>

definition get_available_streams :: "exn + (label \<times> 'v) list \<Rightarrow> (label \<times> 'v) list" where
  "get_available_streams resolved =
     (case resolved of
        Inl _ \<Rightarrow> []
      | Inr d \<Rightarrow> filter (\<lambda>(n, s). \<not> sublist ''audio'' (lower n)) d)"

text \<open>\<^verbatim>\<open>pick_best_stream\<close>. \<^verbatim>\<open>sorted(qs, reverse=True)\<close> is the ascending sort
  reversed (labels that compare equal are the same string, so stability is not
  observable). \<^verbatim>\<open>next(iter(streams.items()))\<close> raises \<^verbatim>\<open>StopIteration\<close> on an empty
  dictionary.\<close>

definition pick_best_stream :: "(label \<times> 'v) list \<Rightarrow> exn + (label \<times> 'v)" where
  "pick_best_stream streams =
     (case map_of streams ''best'' of
        Some s \<Rightarrow> Inr (''best'', s)
      | None \<Rightarrow>
          (let qs = filter (\<lambda>q. list_ex isdigit q) (map fst streams) in
           if qs \<noteq> [] then
             (let best_q = hd (rev (sort qs)) in
              case map_of streams best_q of
                Some s \<Rightarrow> Inr (best_q, s)
              | None \<Rightarrow> Inl KeyError)
           else
             (case streams of [] \<Rightarrow> Inl StopIteration | kv # _ \<Rightarrow> Inr kv)))"

subsection \<open>The outside world\<close>

text \<open>
  A subprocess handle (a \<^verbatim>\<open>Popen\<close> object) is a number; every successful \<^verbatim>\<open>Popen\<close>
  gives a fresh one, so two handles are equal exactly when they are the same object.

  What the script cannot decide is an oracle of the environment, asked by the number of
  the call: what the resolver answers, what the file system holds when the binary is
  looked up, whether \<^verbatim>\<open>Popen\<close> raises, how a subprocess answers the termination
  signal, which subprocesses die on their own during a sleep, and whether Ctrl-C arrives
  during a sleep.
\<close>

type_synonym proc = nat

datatype sigterm_response =
  ExitsInTime   \<comment> \<open>exits within the 10 seconds of \<^verbatim>\<open>wait(timeout=10)\<close>\<close>
  | ExitsLate   \<comment> \<open>exits, but later than any bounded wait\<close>
  | NeverExits  \<comment> \<open>ignores the signal\<close>

record env =
  resolver :: "nat \<Rightarrow> exn + (label \<times> variant) list"
  files :: "nat \<Rightarrow> filesystem"
  popen_ok :: "nat \<Rightarrow> bool"
  on_sigterm :: "proc \<Rightarrow> sigterm_response"
  dies :: "nat \<Rightarrow> proc \<Rightarrow> bool"
  interrupt :: "nat \<Rightarrow> bool"

text \<open>The module-level configuration, computed once when the module is loaded:
  \<^verbatim>\<open>gpu_encoder = detect_gpu_encoder()\<close>, \<^verbatim>\<open>low_cpu\<close> and \<^verbatim>\<open>low_ram\<close>.\<close>

record config =
  gpu_encoder :: "string option"
  low_cpu :: bool
  low_ram :: bool

datatype log_line =
  Support
  | StreamOnline label
  | WaitingForStream
  | CannotGetStreamURL
  | FFmpegStarted proc label string bool
  | AttemptFailed nat
  | FailedToStart label
  | StoppingPrevious proc
  | EndedUnexpectedly
  | MaxRuntimeReached
  | HigherQualityAvailable
  | StreamOffline
  | Exiting

datatype event =
  Log log_line
  | Sleep real
  | SleepInterrupted real
  | Resolve
  | PopenOk proc
  | PopenFailed
  | Terminate proc
  | WaitReturned proc
  | WaitTimedOut proc
  | Kill proc

text \<open>
  The world: the subprocesses running right now, the next fresh handle, the handles that
  were sent the termination signal, the module-level dictionary \<^verbatim>\<open>active_processes\<close>
  (the script only ever uses the key \<^verbatim>\<open>TWITCH_USER\<close>, so it is one optional handle),
  the clock, and the trace: every effect in order, each with the subprocesses running
  right after it. Only sleeps and waits that time out move the clock.
\<close>

record world =
  live :: "proc list"
  next_proc :: proc
  signalled :: "proc list"
  active_processes :: "proc option"
  now :: real
  events :: "(event \<times> proc list) list"
  resolver_calls :: nat
  path_calls :: nat
  popen_calls :: nat
  sleep_calls :: nat

definition emit :: "event \<Rightarrow> world \<Rightarrow> world" where
  "emit e w = w\<lparr>events := events w @ [(e, live w)]\<rparr>"

definition log :: "log_line \<Rightarrow> world \<Rightarrow> world" where
  "log l w = emit (Log l) w"

text \<open>\<^verbatim>\<open>time.sleep(dt)\<close>: Ctrl-C raises \<^verbatim>\<open>KeyboardInterrupt\<close> out of the sleep.\<close>

definition sleep :: "env \<Rightarrow> real \<Rightarrow> world \<Rightarrow> (exn + unit) \<times> world" where
  "sleep en dt w =
     (let k = sleep_calls w; w1 = w\<lparr>sleep_calls := Suc k\<rparr> in
      if interrupt en k then (Inl KeyboardInterrupt, emit (SleepInterrupted dt) w1)
      else (Inr (), emit (Sleep dt)
              (w1\<lparr>now := now w1 + dt, live := filter (\<lambda>p. \<not> dies en k p) (live w1)\<rparr>)))"

text \<open>\<^verbatim>\<open>subprocess.Popen(cmd, ...)\<close>: raises, or starts a subprocess that runs from then
  on.\<close>

definition popen :: "env \<Rightarrow> world \<Rightarrow> (exn + proc) \<times> world" where
  "popen en w =
     (let k = popen_calls w; w1 = w\<lparr>popen_calls := Suc k\<rparr> in
      if popen_ok en k then
        (let p = next_proc w1 in
         (Inr p, emit (PopenOk p) (w1\<lparr>next_proc := Suc p, live := live w1 @ [p]\<rparr>)))
      else (Inl OSError, emit PopenFailed w1))"

text \<open>\<^verbatim>\<open>Popen.terminate()\<close> sends the signal and returns; on a subprocess that has
  exited it does nothing and does not raise. \<^verbatim>\<open>Popen.wait(timeout=10)\<close> returns at once
  for a subprocess that has exited, returns when a signalled subprocess exits in time,
  and raises \<^verbatim>\<open>TimeoutExpired\<close> after 10 seconds otherwise. \<^verbatim>\<open>Popen.wait()\<close> has no
  bound: on a subprocess that never exits it does not return (\<open>None\<close>).
  \<^verbatim>\<open>Popen.kill()\<close> ends the subprocess. \<^verbatim>\<open>Popen.poll()\<close> tells whether it has
  exited.\<close>

definition terminate :: "proc \<Rightarrow> world \<Rightarrow> world" where
  "terminate p w = emit (Terminate p) (w\<lparr>signalled := p # signalled w\<rparr>)"

definition wait_timeout :: "env \<Rightarrow> proc \<Rightarrow> world \<Rightarrow> (exn + unit) \<times> world" where
  "wait_timeout en p w =
     (if p \<notin> set (live w) then (Inr (), emit (WaitReturned p) w)
      else if p \<in> set (signalled w) \<and> on_sigterm en p = ExitsInTime
      then (Inr (), emit (WaitReturned p) (w\<lparr>live := removeAll p (live w)\<rparr>))
      else (Inl TimeoutExpired, emit (WaitTimedOut p) (w\<lparr>now := now w + 10\<rparr>)))"

definition wait_forever :: "env \<Rightarrow> proc \<Rightarrow> world \<Rightarrow> world option" where
  "wait_forever en p w =
     (if p \<notin> set (live w) then Some (emit (WaitReturned p) w)
      else if p \<in> set (signalled w) \<and> on_sigterm en p \<noteq> NeverExits
      then Some (emit (WaitReturned p) (w\<lparr>live := removeAll p (live w)\<rparr>))
      else None)"

definition kill :: "proc \<Rightarrow> world \<Rightarrow> world" where
  "kill p w = emit (Kill p) (w\<lparr>live := removeAll p (live w)\<rparr>)"

definition poll_exited :: "proc \<Rightarrow> world \<Rightarrow> bool" where
  "poll_exited p w = (p \<notin> set (live w))"

text \<open>The call \<^verbatim>\<open>get_ffmpeg_path()\<close> and the call \<^verbatim>\<open>get_available_streams()\<close>, on the
  world.\<close>

definition call_get_ffmpeg_path :: "env \<Rightarrow> world \<Rightarrow> (exn + string) \<times> world" where
  "call_get_ffmpeg_path en w =
     (get_ffmpeg_path (files en (path_calls w)), w\<lparr>path_calls := Suc (path_calls w)\<rparr>)"

definition call_get_available_streams :: "env \<Rightarrow> world \<Rightarrow> (label \<times> variant) list \<times> world" where
  "call_get_available_streams en w =
     (get_available_streams (resolver en (resolver_calls w)),
      emit Resolve (w\<lparr>resolver_calls := Suc (resolver_calls w)\<rparr>))"

subsection \<open>FFmpeg relay: \<^verbatim>\<open>start_ffmpeg\<close>\<close>

definition encoder_used :: "config \<Rightarrow> string" where
  "encoder_used cfg = (case gpu_encoder cfg of None \<Rightarrow> ''copy'' | Some g \<Rightarrow> if g = [] then ''copy'' else g)"

text \<open>The body of the \<^verbatim>\<open>try\<close> of one attempt: start the subprocess; under
  \<^verbatim>\<open>process_lock\<close> (one thread, so the lock never blocks) retire the handle recorded in
  \<^verbatim>\<open>active_processes\<close> with \<^verbatim>\<open>terminate()\<close> and \<^verbatim>\<open>wait(timeout=10)\<close>, record the new
  handle; log one line; return the handle. An exception leaves the body where it is
  raised. Of the command line built at the top of the loop body the model keeps what
  the log line shows: the encoder, and whether the low-resource flags were added.\<close>

definition launch :: "env \<Rightarrow> config \<Rightarrow> label \<Rightarrow> world \<Rightarrow> (exn + proc) \<times> world" where
  "launch en cfg quality w =
     (case popen en w of
        (Inl e, w1) \<Rightarrow> (Inl e, w1)
      | (Inr new, w1) \<Rightarrow>
          (case (case active_processes w1 of
                   None \<Rightarrow> (Inr (), w1)
                 | Some old_proc \<Rightarrow>
                     if old_proc \<noteq> new then wait_timeout en old_proc (terminate old_proc w1)
                     else (Inr (), w1)) of
             (Inl e, w2) \<Rightarrow> (Inl e, w2)
           | (Inr _, w2) \<Rightarrow>
               (Inr new,
                log (FFmpegStarted new quality (encoder_used cfg) (low_cpu cfg \<or> low_ram cfg))
                  (w2\<lparr>active_processes := Some new\<rparr>))))"

text \<open>The loop \<^verbatim>\<open>for attempt in range(1, retries+1)\<close>: \<open>n\<close> attempts are left. An
  exception of the body that \<^verbatim>\<open>except Exception\<close> catches is logged and followed by
  \<^verbatim>\<open>time.sleep(3)\<close>; after the last attempt the function returns \<^verbatim>\<open>None\<close>.\<close>

fun attempts :: "env \<Rightarrow> config \<Rightarrow> label \<Rightarrow> nat \<Rightarrow> nat \<Rightarrow> world \<Rightarrow> (exn + proc option) \<times> world" where
  "attempts en cfg quality attempt 0 w = (Inr None, w)"
| "attempts en cfg quality attempt (Suc n) w =
     (case launch en cfg quality w of
        (Inr new, w1) \<Rightarrow> (Inr (Some new), w1)
      | (Inl e, w1) \<Rightarrow>
          if is_Exception e then
            (case sleep en 3 (log (AttemptFailed attempt) w1) of
               (Inl e', w2) \<Rightarrow> (Inl e', w2)
             | (Inr _, w2) \<Rightarrow> attempts en cfg quality (Suc attempt) n w2)
          else (Inl e, w1))"

text \<open>\<^verbatim>\<open>start_ffmpeg(stream, quality)\<close>, always called with the default
  \<^verbatim>\<open>retries=3\<close>. The call \<^verbatim>\<open>get_ffmpeg_path()\<close> stands outside every \<^verbatim>\<open>try\<close>.\<close>

definition start_ffmpeg :: "env \<Rightarrow> config \<Rightarrow> variant \<Rightarrow> label \<Rightarrow> world \<Rightarrow> (exn + proc option) \<times> world" where
  "start_ffmpeg en cfg stream quality w =
     (case to_url stream of
        None \<Rightarrow> (Inr None, log CannotGetStreamURL w)
      | Some url \<Rightarrow>
          (case call_get_ffmpeg_path en w of
             (Inl e, w1) \<Rightarrow> (Inl e, w1)
           | (Inr ffmpeg_path, w1) \<Rightarrow> attempts en cfg quality 1 3 w1))"

subsection \<open>The class \<^verbatim>\<open>Relay\<close>\<close>

datatype status = Online | Offline

record relay =
  current_ffmpeg :: "proc option"
  current_quality :: "label option"
  start_time :: "real option"
  stream_obj :: "variant option"
  last_stream_status :: "status option"
  last_upgrade_logged :: bool

definition Relay_init :: relay where
  "Relay_init =
     \<lparr>current_ffmpeg = None, current_quality = None, start_time = None, stream_obj = None,
      last_stream_status = None, last_upgrade_logged = False\<rparr>"

definition FFMPEG_MAX_RUNTIME :: real where
  "FFMPEG_MAX_RUNTIME = 10.5 * 60 * 60"

text \<open>\<^verbatim>\<open>Relay.start_new_ffmpeg(stream, quality)\<close>, the handoff. The retirement of
  \<^verbatim>\<open>self.current_ffmpeg\<close> is \<^verbatim>\<open>terminate()\<close>, then \<^verbatim>\<open>wait(timeout=10)\<close> in a
  \<^verbatim>\<open>try\<close> whose bare \<^verbatim>\<open>except\<close> calls \<^verbatim>\<open>kill()\<close>.\<close>

definition start_new_ffmpeg ::
  "env \<Rightarrow> config \<Rightarrow> variant \<Rightarrow> label \<Rightarrow> relay \<times> world \<Rightarrow> (exn + unit) \<times> relay \<times> world" where
  "start_new_ffmpeg en cfg stream quality rw =
     (case rw of (r, w) \<Rightarrow>
        (case start_ffmpeg en cfg stream quality w of
           (Inl e, w1) \<Rightarrow> (Inl e, r, w1)
         | (Inr None, w1) \<Rightarrow>
             (case sleep en 10 (log (FailedToStart quality) w1) of (res, w2) \<Rightarrow> (res, r, w2))
         | (Inr (Some new_ffmpeg), w1) \<Rightarrow>
             (let w2 =
                (case current_ffmpeg r of
                   None \<Rightarrow> w1
                 | Some cur \<Rightarrow>
                     if cur \<noteq> new_ffmpeg then
                       (case wait_timeout en cur (terminate cur (log (StoppingPrevious cur) w1)) of
                          (Inr _, w') \<Rightarrow> w'
                        | (Inl _, w') \<Rightarrow> kill cur w')
                     else w1)
              in (Inr (),
                  r\<lparr>current_ffmpeg := Some new_ffmpeg, current_quality := Some quality,
                    start_time := Some (now w2), stream_obj := Some stream\<rparr>,
                  w2))))"

text \<open>One pass through the body of the loop of \<^verbatim>\<open>Relay.wait_for_stream\<close>:
  \<open>Some (quality, stream)\<close> is the \<^verbatim>\<open>return\<close>, \<open>None\<close> the end of the body, after which
  the loop starts over.\<close>

definition wait_for_stream_iter ::
  "env \<Rightarrow> relay \<times> world \<Rightarrow> (exn + (label \<times> variant) option) \<times> relay \<times> world" where
  "wait_for_stream_iter en rw =
     (case rw of (r, w) \<Rightarrow>
        (case call_get_available_streams en w of (streams, w1) \<Rightarrow>
           (case (if streams \<noteq> [] then
                    (case pick_best_stream streams of
                       Inl e \<Rightarrow> Inl e
                     | Inr (quality, stream) \<Rightarrow>
                         Inr (if truthy stream then Some (quality, stream) else None))
                  else Inr None) of
              Inl e \<Rightarrow> (Inl e, r, w1)
            | Inr (Some (quality, stream)) \<Rightarrow>
                if last_stream_status r \<noteq> Some Online
                then (Inr (Some (quality, stream)), r\<lparr>last_stream_status := Some Online\<rparr>,
                      log (StreamOnline quality) w1)
                else (Inr (Some (quality, stream)), r, w1)
            | Inr None \<Rightarrow>
                (case (if last_stream_status r \<noteq> Some Offline
                       then (r\<lparr>last_stream_status := Some Offline\<rparr>, log WaitingForStream w1)
                       else (r, w1)) of
                   (r2, w2) \<Rightarrow>
                     (case sleep en 15 w2 of
                        (Inl e, w3) \<Rightarrow> (Inl e, r2, w3)
                      | (Inr _, w3) \<Rightarrow> (Inr None, r2, w3))))))"

text \<open>One pass through the body of the inner loop of \<^verbatim>\<open>Relay.start_relay\<close>, entered
  with the local variables \<^verbatim>\<open>quality\<close> and \<^verbatim>\<open>stream\<close>: \<open>True\<close> is a \<^verbatim>\<open>break\<close>,
  \<open>False\<close> the end of the body. The script has one thread, so \<^verbatim>\<open>with self.lock\<close>
  never blocks. \<^verbatim>\<open>time.time() - self.start_time\<close> raises
  \<^verbatim>\<open>TypeError\<close> when no start time is recorded.\<close>

definition relay_iter ::
  "env \<Rightarrow> config \<Rightarrow> label \<Rightarrow> variant \<Rightarrow> relay \<times> world \<Rightarrow> (exn + bool) \<times> relay \<times> world" where
  "relay_iter en cfg quality stream rw =
     (case rw of (r, w) \<Rightarrow>
        (case sleep en 30 w of
           (Inl e, w1) \<Rightarrow> (Inl e, r, w1)
         | (Inr _, w1) \<Rightarrow>
             if (case current_ffmpeg r of None \<Rightarrow> True | Some p \<Rightarrow> poll_exited p w1)
             then (Inr True, r, log EndedUnexpectedly w1)
             else
               (case start_time r of
                  None \<Rightarrow> (Inl TypeError, r, w1)
                | Some t0 \<Rightarrow>
                    if now w1 - t0 > FFMPEG_MAX_RUNTIME then
                      (case start_new_ffmpeg en cfg stream quality (r, log MaxRuntimeReached w1) of
                         (Inl e, r2, w2) \<Rightarrow> (Inl e, r2, w2)
                       | (Inr _, r2, w2) \<Rightarrow> (Inr True, r2, w2))
                    else
                      (case call_get_available_streams en w1 of (streams, w2) \<Rightarrow>
                         if map_of streams ''best'' \<noteq> None \<and> current_quality r \<noteq> Some ''best''
                         then
                           (case (if \<not> last_upgrade_logged r
                                  then (r\<lparr>last_upgrade_logged := True\<rparr>,
                                        log HigherQualityAvailable w2)
                                  else (r, w2)) of
                              (r3, w3) \<Rightarrow>
                                (case map_of streams ''best'' of
                                   None \<Rightarrow> (Inl KeyError, r3, w3)
                                 | Some best \<Rightarrow>
                                     (case start_new_ffmpeg en cfg best ''best'' (r3, w3) of
                                        (Inl e, r4, w4) \<Rightarrow> (Inl e, r4, w4)
                                      | (Inr _, r4, w4) \<Rightarrow> (Inr True, r4, w4))))
                         else
                           (let r3 = r\<lparr>last_upgrade_logged := False\<rparr> in
                            if streams = [] \<and> last_stream_status r3 \<noteq> Some Offline
                            then (Inr True, r3\<lparr>last_stream_status := Some Offline\<rparr>,
                                  log StreamOffline w2)
                            else (Inr False, r3, w2))))))"

text \<open>
  \<^verbatim>\<open>Relay.start_relay\<close> is two nested \<^verbatim>\<open>while True\<close> loops and never returns. The
  control point is either the loop of \<^verbatim>\<open>wait_for_stream\<close> (the spec's state
  \<open>AWAITING_SOURCE\<close>) or the inner loop with its two local variables (\<open>RELAYING\<close>). A step
  is one pass through the body of the loop the control point is in; leaving
  \<^verbatim>\<open>wait_for_stream\<close> runs the handoff \<^verbatim>\<open>self.start_new_ffmpeg(stream, quality)\<close> that
  follows it. \<open>start_relay n\<close> runs \<open>n\<close> steps: the result is the exception that left the
  method, or the control point reached.
\<close>

datatype ctl = AWAITING_SOURCE | RELAYING label variant

definition step :: "env \<Rightarrow> config \<Rightarrow> ctl \<Rightarrow> relay \<times> world \<Rightarrow> (exn + ctl) \<times> relay \<times> world" where
  "step en cfg c rw =
     (case c of
        AWAITING_SOURCE \<Rightarrow>
          (case wait_for_stream_iter en rw of
             (Inl e, rw1) \<Rightarrow> (Inl e, rw1)
           | (Inr None, rw1) \<Rightarrow> (Inr AWAITING_SOURCE, rw1)
           | (Inr (Some (quality, stream)), rw1) \<Rightarrow>
               (case start_new_ffmpeg en cfg stream quality rw1 of
                  (Inl e, rw2) \<Rightarrow> (Inl e, rw2)
                | (Inr _, rw2) \<Rightarrow> (Inr (RELAYING quality stream), rw2)))
      | RELAYING quality stream \<Rightarrow>
          (case relay_iter en cfg quality stream rw of
             (Inl e, rw1) \<Rightarrow> (Inl e, rw1)
           | (Inr brk, rw1) \<Rightarrow> (Inr (if brk then AWAITING_SOURCE else RELAYING quality stream), rw1)))"

fun start_relay :: "nat \<Rightarrow> env \<Rightarrow> config \<Rightarrow> ctl \<Rightarrow> relay \<times> world \<Rightarrow> (exn + ctl) \<times> relay \<times> world" where
  "start_relay 0 en cfg c rw = (Inr c, rw)"
| "start_relay (Suc n) en cfg c rw =
     (case step en cfg c rw of
        (Inl e, rw1) \<Rightarrow> (Inl e, rw1)
      | (Inr c1, rw1) \<Rightarrow> start_relay n en cfg c1 rw1)"

subsection \<open>The main block\<close>

text \<open>The process after \<open>n\<close> steps of \<^verbatim>\<open>relay.start_relay()\<close>: still in the loops; ended
  after the \<^verbatim>\<open>except KeyboardInterrupt\<close> branch and the final \<^verbatim>\<open>terminate()\<close> and
  \<^verbatim>\<open>wait()\<close>; blocked for ever in that \<^verbatim>\<open>wait()\<close>; or ended by an exception nothing
  caught (the lines after the \<^verbatim>\<open>try\<close> statement are not run then).\<close>

datatype outcome =
  StillRunning ctl relay world
  | Exited relay world
  | BlockedInWait relay world
  | Crashed exn relay world

definition world_init :: world where
  "world_init =
     \<lparr>live = [], next_proc = 0, signalled = [], active_processes = None, now = 0, events = [],
      resolver_calls = 0, path_calls = 0, popen_calls = 0, sleep_calls = 0\<rparr>"

definition shutdown :: "env \<Rightarrow> relay \<times> world \<Rightarrow> outcome" where
  "shutdown en rw =
     (case rw of (r, w) \<Rightarrow>
        (let w1 = log Exiting w in
         case current_ffmpeg r of
           None \<Rightarrow> Exited r w1
         | Some p \<Rightarrow>
             (case wait_forever en p (terminate p w1) of
                None \<Rightarrow> BlockedInWait r (terminate p w1)
              | Some w2 \<Rightarrow> Exited r w2)))"

definition main :: "nat \<Rightarrow> env \<Rightarrow> config \<Rightarrow> outcome" where
  "main n en cfg =
     (case start_relay n en cfg AWAITING_SOURCE (Relay_init, log Support world_init) of
        (Inr c, r, w) \<Rightarrow> StillRunning c r w
      | (Inl e, r, w) \<Rightarrow> if e = KeyboardInterrupt then shutdown en (r, w) else Crashed e r w)"

subsection \<open>Reading a trace\<close>




definition trace :: "world \<Rightarrow> event list" where
  "trace w = map fst (events w)"

subsection \<open>Concrete environments\<close>

text \<open>A variant whose URL resolves, a file system with an executable binary, a
  configuration without hardware encoder, and an environment in which nothing goes
  wrong: the resolver always lists one variant "best", every launch succeeds, every
  subprocess exits when told to, none dies on its own, nobody presses Ctrl-C.\<close>

definition plain_variant :: variant where
  "plain_variant = \<lparr>truthy = True, to_url = Some ''u''\<rparr>"

definition good_files :: filesystem where
  "good_files =
     \<lparr>get_ffmpeg_exe = Inr ''/bin/ffmpeg'', isfile = (\<lambda>_. True), access_x = (\<lambda>_. True),
      os_name = ''posix''\<rparr>"

definition plain_config :: config where
  "plain_config = \<lparr>gpu_encoder = None, low_cpu = False, low_ram = False\<rparr>"

definition calm :: env where
  "calm =
     \<lparr>resolver = (\<lambda>_. Inr [(''best'', plain_variant)]), files = (\<lambda>_. good_files),
      popen_ok = (\<lambda>_. True), on_sigterm = (\<lambda>_. ExitsInTime), dies = (\<lambda>_ _. False),
      interrupt = (\<lambda>_. False)\<rparr>"

text \<open>A relay in its steady state: subprocess 0 runs and is recorded, at quality
  "best", since time 0; the clock stands at \<open>t\<close>.\<close>

definition relaying :: relay where
  "relaying =
     \<lparr>current_ffmpeg = Some 0, current_quality = Some ''best'', start_time = Some 0,
      stream_obj = Some plain_variant, last_stream_status = Some Online,
      last_upgrade_logged = False\<rparr>"

definition relaying_world :: "real \<Rightarrow> world" where
  "relaying_world t =
     world_init\<lparr>live := [0], next_proc := 1, active_processes := Some 0, now := t\<rparr>"


text \<open>The module-level statements that compute the configuration when the module is
  loaded: \<^verbatim>\<open>low_cpu = cpu_cores <= 2\<close>, \<^verbatim>\<open>low_ram = total_ram_gb <= 4\<close> and
  \<^verbatim>\<open>gpu_encoder = detect_gpu_encoder()\<close>.\<close>

definition module_config :: "filesystem \<Rightarrow> (string \<Rightarrow> exn + string) \<Rightarrow> nat \<Rightarrow> real \<Rightarrow> config" where
  "module_config fs run cpu_cores total_ram_gb =
     \<lparr>gpu_encoder = detect_gpu_encoder fs run, low_cpu = (cpu_cores \<le> 2),
      low_ram = (total_ram_gb \<le> 4)\<rparr>"

text \<open>\<open>ext Q w w'\<close>: the trace of \<open>w'\<close> is the trace of \<open>w\<close> followed by entries that all
  satisfy \<open>Q\<close>. \<open>started_with X\<close> holds of every entry but a launch line that names an
  encoder other than \<open>X\<close>.\<close>

definition ext :: "(event \<times> proc list \<Rightarrow> bool) \<Rightarrow> world \<Rightarrow> world \<Rightarrow> bool" where
  "ext Q w w' = (\<exists>evs. events w' = events w @ evs \<and> list_all Q evs)"

fun started_with :: "string \<Rightarrow> event \<times> proc list \<Rightarrow> bool" where
  "started_with X (Log (FFmpegStarted p q enc a), l) = (enc = X)"
| "started_with X _ = True"

definition world_of :: "outcome \<Rightarrow> world" where
  "world_of out =
     (case out of StillRunning c r w \<Rightarrow> w | Exited r w \<Rightarrow> w | BlockedInWait r w \<Rightarrow> w
      | Crashed e r w \<Rightarrow> w)"

text \<open>A capability query that lists two of the hardware encoders, one in capitals.\<close>

definition nvidia_host :: "string \<Rightarrow> exn + string" where
  "nvidia_host path = Inr ''h264_amf H264_NVENC''"

text \<open>Further environments. \<open>stubborn\<close>: subprocess 0 exits late when told to.
  \<open>deaf\<close>: the subprocesses ignore the termination signal, and Ctrl-C arrives during
  the first sleep. \<open>flapping\<close>: the resolver lists "720p" alone at its polls 0 and 2,
  and "720p" with "best" at the others. \<open>impatient\<close>: Ctrl-C arrives during the first
  sleep.\<close>

definition stubborn :: env where
  "stubborn = calm\<lparr>on_sigterm := (\<lambda>p. if p = 0 then ExitsLate else ExitsInTime)\<rparr>"

definition deaf :: env where
  "deaf = calm\<lparr>on_sigterm := (\<lambda>_. NeverExits), interrupt := (\<lambda>k. k = 0)\<rparr>"

definition variant_720p :: variant where
  "variant_720p = \<lparr>truthy = True, to_url = Some ''v''\<rparr>"

definition flapping :: env where
  "flapping =
     calm\<lparr>resolver := (\<lambda>k. if k = 0 \<or> k = 2 then Inr [(''720p'', variant_720p)]
                          else Inr [(''720p'', variant_720p), (''best'', plain_variant)])\<rparr>"

definition impatient :: env where
  "impatient = calm\<lparr>interrupt := (\<lambda>k. k = 0)\<rparr>"

text \<open>The first subprocess dies during the first sleep, and the binary is gone from the
  second lookup on.\<close>

definition binary_removed :: env where
  "binary_removed =
     calm\<lparr>files := (\<lambda>k. if k = 0 then good_files else good_files\<lparr>isfile := (\<lambda>_. False)\<rparr>),
          dies := (\<lambda>k p. k = 0)\<rparr>"

text \<open>The exceptions that can leave the loops: \<^verbatim>\<open>KeyboardInterrupt\<close> from a sleep, and
  whatever a lookup of the binary raises. \<open>timed\<close>: a relay that records a handle records a
  session start.\<close>

definition may_escape :: "env \<Rightarrow> exn \<Rightarrow> bool" where
  "may_escape en e =
     ((e = KeyboardInterrupt \<and> (\<exists>k. interrupt en k)) \<or> (\<exists>k. get_ffmpeg_path (files en k) = Inl e))"

definition timed :: "relay \<Rightarrow> bool" where
  "timed r = (current_ffmpeg r \<noteq> None \<longrightarrow> start_time r \<noteq> None)"

text \<open>\<open>tidy\<close>: every running subprocess is the one recorded in \<^verbatim>\<open>active_processes\<close>,
  and the recorded handle is older than the next fresh one. \<open>window\<close>: a trace entry with
  at most one subprocess running, or with two right after a launch or a termination
  signal, that is between the start of the new subprocess and the exit of the previous
  one. \<open>settled\<close>: the world is tidy and the relay records the same handle as
  \<^verbatim>\<open>active_processes\<close>.\<close>

definition tidy :: "world \<Rightarrow> bool" where
  "tidy w =
     (distinct (live w) \<and> set (live w) \<subseteq> set_option (active_processes w)
      \<and> (\<forall>p \<in> set_option (active_processes w). p < next_proc w))"

fun in_retirement :: "event \<Rightarrow> bool" where
  "in_retirement (PopenOk _) = True"
| "in_retirement (Terminate _) = True"
| "in_retirement _ = False"

definition window :: "event \<times> proc list \<Rightarrow> bool" where
  "window x = (length (snd x) \<le> 1 \<or> (length (snd x) = 2 \<and> in_retirement (fst x)))"

definition settled :: "relay \<Rightarrow> world \<Rightarrow> bool" where
  "settled r w = (tidy w \<and> current_ffmpeg r = active_processes w)"

lemmas prims = emit_def log_def sleep_def popen_def terminate_def wait_timeout_def kill_def

lemmas scenario =
  plain_variant_def good_files_def plain_config_def calm_def relaying_def relaying_world_def
  world_init_def Relay_init_def

section \<open>Properties\<close>

subsection \<open>Quality selection\<close>

lemma greatest_of_sorted:
  fixes qs :: "string list"
  assumes "qs \<noteq> []"
  shows "hd (rev (sort qs)) \<in> set qs" and "\<forall>q \<in> set qs. q \<le> hd (rev (sort qs))"
proof -
  have ne: "sort qs \<noteq> []" using assms by (metis length_sort length_0_conv)
  then have eq: "hd (rev (sort qs)) = last (sort qs)" by (simp add: hd_rev)
  have "last (sort qs) \<in> set (sort qs)" using ne by (rule last_in_set)
  then show "hd (rev (sort qs)) \<in> set qs" using eq by simp
  have "\<forall>q \<in> set (sort qs). q \<le> last (sort qs)"
  proof
    fix q assume "q \<in> set (sort qs)"
    then obtain i where i: "i < length (sort qs)" "sort qs ! i = q"
      by (metis in_set_conv_nth)
    have "sort qs ! i \<le> sort qs ! (length (sort qs) - 1)"
      using i(1) by (intro sorted_nth_mono) auto
    then show "q \<le> last (sort qs)" using i(2) ne by (simp add: last_conv_nth)
  qed
  then show "\<forall>q \<in> set qs. q \<le> hd (rev (sort qs))" using eq by simp
qed

text \<open>
  C2. For a non-empty dictionary of variants \<^verbatim>\<open>pick_best_stream\<close> returns the entry
  labelled "best" when there is one; otherwise, when some label contains a digit, the
  entry whose label is greatest in code-point order among the labels containing a digit;
  otherwise the first entry. On the labels "160p" and "1080p" it picks "160p".
\<close>

theorem pick_best_stream_policy:
  fixes streams :: "(label \<times> 'v) list"
  assumes "streams \<noteq> []"
  shows "(\<forall>s. map_of streams ''best'' = Some s \<longrightarrow> pick_best_stream streams = Inr (''best'', s))
    \<and> (map_of streams ''best'' = None \<and> (\<exists>q \<in> fst ` set streams. list_ex isdigit q) \<longrightarrow>
         (\<exists>q s. pick_best_stream streams = Inr (q, s) \<and> map_of streams q = Some s
             \<and> (q, s) \<in> set streams \<and> list_ex isdigit q
             \<and> (\<forall>q' \<in> fst ` set streams. list_ex isdigit q' \<longrightarrow> q' \<le> q)))
    \<and> (map_of streams ''best'' = None \<and> (\<forall>q \<in> fst ` set streams. \<not> list_ex isdigit q) \<longrightarrow>
         pick_best_stream streams = Inr (hd streams))
    \<and> pick_best_stream [(''160p'', x), (''1080p'', y)] = Inr (''160p'', x)"
proof (intro conjI impI)
  show "\<forall>s. map_of streams ''best'' = Some s \<longrightarrow> pick_best_stream streams = Inr (''best'', s)"
    by (simp add: pick_best_stream_def)
next
  assume a: "map_of streams ''best'' = None \<and> (\<exists>q \<in> fst ` set streams. list_ex isdigit q)"
  define qs where "qs = filter (\<lambda>q. list_ex isdigit q) (map fst streams)"
  define b where "b = hd (rev (sort qs))"
  have nb: "map_of streams ''best'' = None" using a by simp
  have ne: "qs \<noteq> []" using a by (auto simp: qs_def filter_empty_conv)
  have b_in: "b \<in> set qs" and b_max: "\<forall>q \<in> set qs. q \<le> b"
    using greatest_of_sorted [OF ne] by (simp_all add: b_def)
  from b_in have b_key: "b \<in> fst ` set streams" and b_dig: "list_ex isdigit b"
    by (auto simp: qs_def)
  then obtain s where s: "map_of streams b = Some s"
    by (metis domD dom_map_of_conv_image_fst)
  have "pick_best_stream streams = Inr (b, s)"
    using nb ne s by (simp add: pick_best_stream_def qs_def [symmetric] b_def [symmetric])
  moreover have "(b, s) \<in> set streams" using s by (rule map_of_SomeD)
  moreover have "\<forall>q' \<in> fst ` set streams. list_ex isdigit q' \<longrightarrow> q' \<le> b"
    using b_max by (auto simp: qs_def)
  ultimately show "\<exists>q s. pick_best_stream streams = Inr (q, s) \<and> map_of streams q = Some s
      \<and> (q, s) \<in> set streams \<and> list_ex isdigit q
      \<and> (\<forall>q' \<in> fst ` set streams. list_ex isdigit q' \<longrightarrow> q' \<le> q)"
    using s b_dig by blast
next
  assume a: "map_of streams ''best'' = None \<and> (\<forall>q \<in> fst ` set streams. \<not> list_ex isdigit q)"
  have "filter (\<lambda>q. list_ex isdigit q) (map fst streams) = []"
    using a by (auto simp: filter_empty_conv)
  then show "pick_best_stream streams = Inr (hd streams)"
    using a assms by (cases streams) (simp_all add: pick_best_stream_def)
next
  show "pick_best_stream [(''160p'', x), (''1080p'', y)] = Inr (''160p'', x)"
    by (simp add: pick_best_stream_def isdigit_def)
qed

text \<open>The selection on the labels "480p", "720p" and "1080p60", with no "best": "720p"
  is the greatest label in code-point order.\<close>

theorem pick_best_stream_policy_witness:
  "[(''480p'', 1::nat), (''720p'', 2), (''1080p60'', 3)] \<noteq> []
   \<and> map_of [(''480p'', 1::nat), (''720p'', 2), (''1080p60'', 3)] ''best'' = None
   \<and> list_ex isdigit ''720p''
   \<and> pick_best_stream [(''480p'', 1::nat), (''720p'', 2), (''1080p60'', 3)] = Inr (''720p'', 2)
   \<and> pick_best_stream [(''720p'', 1::nat), (''best'', 2)] = Inr (''best'', 2)
   \<and> pick_best_stream [(''source'', 1::nat), (''mobile'', 2)] = Inr (''source'', 1)"
  using pick_best_stream_policy [of "[(''480p'', 1::nat), (''720p'', 2), (''1080p60'', 3)]"]
    pick_best_stream_policy [of "[(''720p'', 1::nat), (''best'', 2)]"]
    pick_best_stream_policy [of "[(''source'', 1::nat), (''mobile'', 2)]"]
  by (simp add: pick_best_stream_def isdigit_def)

subsection \<open>Launch with retries\<close>





subsection \<open>Hardware encoder detection\<close>

lemma ext_refl: "ext Q w w"
  by (simp add: ext_def)

lemma ext_trans: "ext Q w w1 \<Longrightarrow> ext Q w1 w2 \<Longrightarrow> ext Q w w2"
  by (auto simp: ext_def)

lemma lower_sublist:
  assumes "sublist xs ys" and "lower xs = xs"
  shows "sublist xs (lower ys)"
proof -
  from assms(1) obtain ps ss where "ys = ps @ xs @ ss" by (auto simp: sublist_def)
  then have "lower ys = lower ps @ xs @ lower ss" using assms(2) by (simp add: lower_def)
  then show ?thesis by (auto simp: sublist_def)
qed

lemma encoder_names_lower:
  "lower ''h264_nvenc'' = ''h264_nvenc''" "lower ''h264_amf'' = ''h264_amf''" "lower ''h264_qsv'' = ''h264_qsv''"
  by (simp_all add: lower_def lower_char_def)

lemma sleep_started: "sleep en dt w = (res, w') \<Longrightarrow> ext (started_with X) w w'"
  by (auto simp: ext_def prims Let_def split: if_splits)

lemma launch_started: "launch en cfg q w = (res, w') \<Longrightarrow> ext (started_with (encoder_used cfg)) w w'"
  by (auto simp: ext_def launch_def prims Let_def split: if_splits option.splits)

lemma attempts_started: "attempts en cfg q a n w = (res, w') \<Longrightarrow> ext (started_with (encoder_used cfg)) w w'"
proof (induction n arbitrary: a w)
  case 0
  then show ?case by (simp add: ext_refl)
next
  case (Suc n)
  obtain r1 w1 where l: "launch en cfg q w = (r1, w1)" by (cases "launch en cfg q w")
  note e1 = launch_started [OF l]
  show ?case
  proof (cases r1)
    case (Inr p)
    then show ?thesis using Suc.prems l e1 by simp
  next
    case (Inl e)
    obtain r2 w2 where s: "sleep en 3 (log (AttemptFailed a) w1) = (r2, w2)"
      by (cases "sleep en 3 (log (AttemptFailed a) w1)")
    have "ext (started_with (encoder_used cfg)) w1 (log (AttemptFailed a) w1)"
      by (simp add: ext_def prims)
    then have e2: "ext (started_with (encoder_used cfg)) w w2"
      using e1 sleep_started [OF s] ext_trans by blast
    show ?thesis
    proof (cases "is_Exception e \<and> r2 = Inr ()")
      case True
      then have "attempts en cfg q (Suc a) n w2 = (res, w')" using Suc.prems l Inl s by simp
      from Suc.IH [OF this] show ?thesis using e2 ext_trans by blast
    next
      case False
      then have "w' = w1 \<or> w' = w2" using Suc.prems l Inl s by (auto split: if_splits sum.splits)
      then show ?thesis using e1 e2 by auto
    qed
  qed
qed

lemma start_ffmpeg_started:
  "start_ffmpeg en cfg s q w = (res, w') \<Longrightarrow> ext (started_with (encoder_used cfg)) w w'"
  apply (auto simp: start_ffmpeg_def call_get_ffmpeg_path_def split: option.splits sum.splits)
    apply (simp add: ext_def prims)
   apply (simp add: ext_def)
  apply (drule attempts_started)
  apply (simp add: ext_def)
  done

lemma log_started_other:
  "\<forall>p q enc a. l \<noteq> FFmpegStarted p q enc a \<Longrightarrow> ext (started_with X) w (log l w)"
  by (cases l) (auto simp: ext_def prims)

lemma start_new_ffmpeg_started:
  assumes "start_new_ffmpeg en cfg s q (r, w) = (res, r', w')"
  shows "ext (started_with (encoder_used cfg)) w w'"
proof -
  obtain r1 w1 where a: "start_ffmpeg en cfg s q w = (r1, w1)" by (cases "start_ffmpeg en cfg s q w")
  note e1 = start_ffmpeg_started [OF a]
  have "ext (started_with (encoder_used cfg)) w1 w'"
    using assms a
    by (auto simp: start_new_ffmpeg_def ext_def prims Let_def split: sum.splits option.splits if_splits)
  then show ?thesis using e1 ext_trans by blast
qed

lemma wait_for_stream_iter_started:
  assumes "wait_for_stream_iter en (r, w) = (res, r', w')"
  shows "ext (started_with X) w w'"
  using assms
  by (auto simp: wait_for_stream_iter_def call_get_available_streams_def ext_def prims Let_def
      split: sum.splits option.splits if_splits prod.splits)

lemma relay_iter_started:
  assumes "relay_iter en cfg q s (r, w) = (res, r', w')"
  shows "ext (started_with (encoder_used cfg)) w w'"
  using assms
  by (auto simp: relay_iter_def call_get_available_streams_def ext_def prims Let_def
      split: sum.splits option.splits if_splits prod.splits
      dest!: start_new_ffmpeg_started [unfolded ext_def])

lemma step_started:
  assumes "step en cfg c (r, w) = (res, r', w')"
  shows "ext (started_with (encoder_used cfg)) w w'"
  using assms
  by (auto simp: step_def split: ctl.splits sum.splits option.splits prod.splits
      dest!: start_new_ffmpeg_started wait_for_stream_iter_started [where X = "encoder_used cfg"] relay_iter_started
      intro: ext_trans)

lemma start_relay_started:
  "start_relay n en cfg c (r, w) = (res, r', w') \<Longrightarrow> ext (started_with (encoder_used cfg)) w w'"
proof (induction n arbitrary: c r w)
  case 0
  then show ?case by (simp add: ext_refl)
next
  case (Suc n)
  obtain r1 rr w1 where s: "step en cfg c (r, w) = (r1, rr, w1)" by (cases "step en cfg c (r, w)")
  note e1 = step_started [OF s]
  show ?case
  proof (cases r1)
    case (Inl e)
    then show ?thesis using Suc.prems s e1 by simp
  next
    case (Inr c1)
    then have "start_relay n en cfg c1 (rr, w1) = (res, r', w')" using Suc.prems s by simp
    from Suc.IH [OF this] show ?thesis using e1 ext_trans by blast
  qed
qed

lemma main_started: "list_all (started_with (encoder_used cfg)) (events (world_of (main n en cfg)))"
proof -
  obtain res r w where s: "start_relay n en cfg AWAITING_SOURCE (Relay_init, log Support world_init) = (res, r, w)"
    by (cases "start_relay n en cfg AWAITING_SOURCE (Relay_init, log Support world_init)")
  from start_relay_started [OF s] have a: "list_all (started_with (encoder_used cfg)) (events w)"
    by (auto simp: ext_def prims world_init_def)
  show ?thesis using s a
    by (auto simp: main_def shutdown_def world_of_def wait_forever_def prims Let_def
        split: sum.splits option.splits if_splits)
qed

lemma detect_gpu_encoder_flat:
  "detect_gpu_encoder fs run =
     (case get_ffmpeg_path fs of
        Inl e \<Rightarrow> None
      | Inr path \<Rightarrow>
          (case run path of
             Inl e \<Rightarrow> None
           | Inr out \<Rightarrow>
               if sublist ''h264_nvenc'' (lower out) then Some ''h264_nvenc''
               else if sublist ''h264_amf'' (lower out) then Some ''h264_amf''
               else if sublist ''h264_qsv'' (lower out) then Some ''h264_qsv''
               else None))"
  by (simp add: detect_gpu_encoder_def Let_def split: sum.splits)

lemma encoder_used_module_config:
  "encoder_used (module_config fs run cores ram) =
     (case detect_gpu_encoder fs run of None \<Rightarrow> ''copy'' | Some g \<Rightarrow> g)"
  by (auto simp: encoder_used_def module_config_def detect_gpu_encoder_flat split: sum.splits option.splits)

text \<open>
  C10. \<^verbatim>\<open>detect_gpu_encoder\<close> searches the lower-cased output of the capability query:
  it returns "h264_nvenc" when that contains it (in particular whenever the output
  itself contains it), otherwise "h264_amf" when present, otherwise "h264_qsv" when
  present, otherwise no hardware encoder; when the binary lookup or the query raises, it
  returns no hardware encoder. The result is computed when the module is loaded and
  never again: every launch line the process ever logs names the encoder of that one
  result ("copy" when there is none), whatever the file system holds later.
\<close>

theorem detect_gpu_encoder_priority:
  "detect_gpu_encoder fs run =
     (case get_ffmpeg_path fs of
        Inl e \<Rightarrow> None
      | Inr path \<Rightarrow>
          (case run path of
             Inl e \<Rightarrow> None
           | Inr out \<Rightarrow>
               if sublist ''h264_nvenc'' (lower out) then Some ''h264_nvenc''
               else if sublist ''h264_amf'' (lower out) then Some ''h264_amf''
               else if sublist ''h264_qsv'' (lower out) then Some ''h264_qsv''
               else None))
   \<and> (\<forall>path out. get_ffmpeg_path fs = Inr path \<and> run path = Inr out \<and> sublist ''h264_nvenc'' out
         \<longrightarrow> detect_gpu_encoder fs run = Some ''h264_nvenc'')
   \<and> (\<forall>n en p q enc a l.
         (Log (FFmpegStarted p q enc a), l)
           \<in> set (events (world_of (main n en (module_config fs run cores ram))))
         \<longrightarrow> enc = (case detect_gpu_encoder fs run of None \<Rightarrow> ''copy'' | Some g \<Rightarrow> g))"
proof (intro conjI allI impI)
  show "detect_gpu_encoder fs run =
     (case get_ffmpeg_path fs of
        Inl e \<Rightarrow> None
      | Inr path \<Rightarrow>
          (case run path of
             Inl e \<Rightarrow> None
           | Inr out \<Rightarrow>
               if sublist ''h264_nvenc'' (lower out) then Some ''h264_nvenc''
               else if sublist ''h264_amf'' (lower out) then Some ''h264_amf''
               else if sublist ''h264_qsv'' (lower out) then Some ''h264_qsv''
               else None))"
    by (rule detect_gpu_encoder_flat)
next
  fix path out
  assume a: "get_ffmpeg_path fs = Inr path \<and> run path = Inr out \<and> sublist ''h264_nvenc'' out"
  then have "sublist ''h264_nvenc'' (lower out)"
    by (intro lower_sublist encoder_names_lower) simp
  then show "detect_gpu_encoder fs run = Some ''h264_nvenc''"
    using a by (simp add: detect_gpu_encoder_flat)
next
  fix n en p q enc a l
  assume "(Log (FFmpegStarted p q enc a), l)
      \<in> set (events (world_of (main n en (module_config fs run cores ram))))"
  then have "started_with (encoder_used (module_config fs run cores ram)) (Log (FFmpegStarted p q enc a), l)"
    using main_started [of "module_config fs run cores ram" n en] unfolding list_all_iff by blast
  then show "enc = (case detect_gpu_encoder fs run of None \<Rightarrow> ''copy'' | Some g \<Rightarrow> g)"
    by (simp add: encoder_used_module_config)
qed

lemma best_not_audio: "\<not> sublist ''audio'' (lower ''best'')"
  by code_simp

lemma good_path: "get_ffmpeg_path good_files = Inr ''/bin/ffmpeg''"
  by (simp add: get_ffmpeg_path_def good_files_def)

lemma calm_simps:
  "get_available_streams (resolver calm k) = [(''best'', plain_variant)]"
  "files calm k = good_files" "popen_ok calm k" "on_sigterm calm p = ExitsInTime"
  "\<not> dies calm k p" "\<not> interrupt calm k"
  by (simp_all add: calm_def get_available_streams_def best_not_audio)

lemmas run_defs =
  main_def shutdown_def step_def wait_for_stream_iter_def relay_iter_def start_new_ffmpeg_def
  start_ffmpeg_def launch_def call_get_available_streams_def call_get_ffmpeg_path_def
  wait_forever_def poll_exited_def is_Exception_def encoder_used_def FFMPEG_MAX_RUNTIME_def
  numeral_3_eq_3 Let_def

lemma nvidia_detect:
  "detect_gpu_encoder good_files nvidia_host = Some ''h264_nvenc''"
  "detect_gpu_encoder good_files (\<lambda>_. Inr ''x h264_nvenc'') = Some ''h264_nvenc''"
  by code_simp+

lemma nvidia_run:
  "(Log (FFmpegStarted 0 ''best'' ''h264_nvenc'' False), [0])
       \<in> set (events (world_of (main 1 calm (module_config good_files nvidia_host 8 16))))"
  by (simp add: nvidia_detect calm_simps good_path run_defs prims pick_best_stream_def plain_variant_def
      world_init_def Relay_init_def module_config_def world_of_def)

theorem detect_gpu_encoder_priority_witness:
  "get_ffmpeg_path good_files = Inr ''/bin/ffmpeg''
   \<and> nvidia_host ''/bin/ffmpeg'' = Inr ''h264_amf H264_NVENC''
   \<and> detect_gpu_encoder good_files nvidia_host = Some ''h264_nvenc''
   \<and> detect_gpu_encoder good_files (\<lambda>_. Inr ''x h264_nvenc'') = Some ''h264_nvenc''
   \<and> (Log (FFmpegStarted 0 ''best'' ''h264_nvenc'' False), [0])
       \<in> set (events (world_of (main 1 calm (module_config good_files nvidia_host 8 16))))"
  using detect_gpu_encoder_priority [of good_files nvidia_host 8 16]
    detect_gpu_encoder_priority [of good_files "\<lambda>_. Inr ''x h264_nvenc''" 8 16]
    nvidia_detect nvidia_run good_path
  by (simp add: nvidia_host_def)

subsection \<open>A handoff whose launch fails\<close>





subsection \<open>Retirement inside \<^verbatim>\<open>start_ffmpeg\<close>\<close>

text \<open>
  C4, at the retirement in \<^verbatim>\<open>start_ffmpeg\<close>. Subprocess 0 runs, is recorded, and needs
  more than 10 seconds to exit. Each attempt starts a new subprocess, sends the
  termination signal to subprocess 0 and waits; the wait times out, nothing kills
  subprocess 0, the timeout is reported as a failed launch and the next attempt starts
  another subprocess. The call returns \<^verbatim>\<open>None\<close> with four subprocesses running and
  subprocess 0 still the one recorded.
\<close>

theorem start_ffmpeg_retire_without_kill:
  "fst (start_ffmpeg stubborn plain_config plain_variant ''best'' (relaying_world 0)) = Inr None
   \<and> trace (snd (start_ffmpeg stubborn plain_config plain_variant ''best'' (relaying_world 0))) =
       [PopenOk 1, Terminate 0, WaitTimedOut 0, Log (AttemptFailed 1), Sleep 3,
        PopenOk 2, Terminate 0, WaitTimedOut 0, Log (AttemptFailed 2), Sleep 3,
        PopenOk 3, Terminate 0, WaitTimedOut 0, Log (AttemptFailed 3), Sleep 3]
   \<and> live (snd (start_ffmpeg stubborn plain_config plain_variant ''best'' (relaying_world 0))) = [0, 1, 2, 3]
   \<and> active_processes (snd (start_ffmpeg stubborn plain_config plain_variant ''best'' (relaying_world 0))) = Some 0"
  by (simp add: stubborn_def scenario run_defs prims trace_def get_ffmpeg_path_def)

subsection \<open>Shutdown on Ctrl-C\<close>

text \<open>
  C7 fails where the subprocess ignores the termination signal: after Ctrl-C the main
  block logs, sends the signal and calls \<^verbatim>\<open>wait()\<close> without a timeout, which never
  returns; the process does not end.
\<close>

theorem shutdown_blocks_counterexample:
  "main 2 deaf plain_config =
     BlockedInWait
       relaying
       (world_init\<lparr>live := [0], next_proc := 1, signalled := [0], active_processes := Some 0,
          events := [(Log Support, []), (Resolve, []), (Log (StreamOnline ''best''), []),
             (PopenOk 0, [0]), (Log (FFmpegStarted 0 ''best'' ''copy'' False), [0]),
             (SleepInterrupted 30, [0]), (Log Exiting, [0]), (Terminate 0, [0])],
          resolver_calls := 1, path_calls := 1, popen_calls := 1, sleep_calls := 1\<rparr>)"
  by (simp add: deaf_def scenario run_defs prims get_ffmpeg_path_def get_available_streams_def best_not_audio
     pick_best_stream_def eval_nat_numeral)

text \<open>
  C7, as the code has it. When \<^verbatim>\<open>KeyboardInterrupt\<close> leaves \<^verbatim>\<open>start_relay\<close>, the main
  block logs one line and, when a handle is recorded, sends it the termination signal and
  waits for its exit with no timeout; it never kills and never polls the resolver again.
  The process ends when that wait returns, and the subprocess has exited then; the wait
  does not return for a running subprocess that ignores the signal.
\<close>

theorem interrupt_shutdown:
  assumes "start_relay n en cfg AWAITING_SOURCE (Relay_init, log Support world_init)
             = (Inl KeyboardInterrupt, r, w)"
  shows "trace (world_of (main n en cfg)) =
           trace w @ Log Exiting #
             (case current_ffmpeg r of
                None \<Rightarrow> []
              | Some p \<Rightarrow>
                  if p \<in> set (live w) \<and> on_sigterm en p = NeverExits then [Terminate p]
                  else [Terminate p, WaitReturned p])
       \<and> (case current_ffmpeg r of
             None \<Rightarrow> main n en cfg = Exited r (log Exiting w)
           | Some p \<Rightarrow>
               if p \<in> set (live w) \<and> on_sigterm en p = NeverExits
               then main n en cfg = BlockedInWait r (terminate p (log Exiting w))
               else \<exists>w'. main n en cfg = Exited r w' \<and> p \<notin> set (live w'))"
  using assms
  by (auto simp: main_def shutdown_def world_of_def trace_def wait_forever_def prims Let_def
      split: option.splits)

theorem interrupt_shutdown_witness:
  "start_relay 2 impatient plain_config AWAITING_SOURCE (Relay_init, log Support world_init)
     = (Inl KeyboardInterrupt, relaying,
        world_init\<lparr>live := [0], next_proc := 1, active_processes := Some 0,
          events := [(Log Support, []), (Resolve, []), (Log (StreamOnline ''best''), []),
             (PopenOk 0, [0]), (Log (FFmpegStarted 0 ''best'' ''copy'' False), [0]),
             (SleepInterrupted 30, [0])],
          resolver_calls := 1, path_calls := 1, popen_calls := 1, sleep_calls := 1\<rparr>)
   \<and> trace (world_of (main 2 impatient plain_config)) =
       [Log Support, Resolve, Log (StreamOnline ''best''), PopenOk 0,
        Log (FFmpegStarted 0 ''best'' ''copy'' False), SleepInterrupted 30,
        Log Exiting, Terminate 0, WaitReturned 0]"
proof -
  have a: "start_relay 2 impatient plain_config AWAITING_SOURCE (Relay_init, log Support world_init)
     = (Inl KeyboardInterrupt, relaying,
        world_init\<lparr>live := [0], next_proc := 1, active_processes := Some 0,
          events := [(Log Support, []), (Resolve, []), (Log (StreamOnline ''best''), []),
             (PopenOk 0, [0]), (Log (FFmpegStarted 0 ''best'' ''copy'' False), [0]),
             (SleepInterrupted 30, [0])],
          resolver_calls := 1, path_calls := 1, popen_calls := 1, sleep_calls := 1\<rparr>)"
    by (simp add: impatient_def scenario run_defs prims get_ffmpeg_path_def get_available_streams_def
        best_not_audio pick_best_stream_def eval_nat_numeral)
  show ?thesis
    using interrupt_shutdown [OF a] a
    by (simp add: trace_def world_init_def relaying_def impatient_def calm_def)
qed

subsection \<open>The upgrade log line\<close>

text \<open>
  C8, on the upgrade condition. The resolver lists "720p" alone at its polls 0 and 2 and
  "720p" with "best" at the others. The upgrade is available at poll 1 (logged, handoff to
  "best"), not at poll 2 (the availability loop picks "720p" again), and available again
  at poll 3: a new run of the condition, whose handoff happens with no log line, because
  the flag set at poll 1 is only cleared by a steady-state poll that sees no upgrade.
\<close>

theorem upgrade_log_suppressed:
  "trace (world_of (main 5 flapping plain_config)) =
     [Log Support,
      Resolve, Log (StreamOnline ''720p''), PopenOk 0, Log (FFmpegStarted 0 ''720p'' ''copy'' False),
      Sleep 30, Resolve, Log HigherQualityAvailable,
        PopenOk 1, Terminate 0, WaitReturned 0, Log (FFmpegStarted 1 ''best'' ''copy'' False),
        Log (StoppingPrevious 0), Terminate 0, WaitReturned 0,
      Resolve, PopenOk 2, Terminate 1, WaitReturned 1, Log (FFmpegStarted 2 ''720p'' ''copy'' False),
        Log (StoppingPrevious 1), Terminate 1, WaitReturned 1,
      Sleep 30, Resolve,
        PopenOk 3, Terminate 2, WaitReturned 2, Log (FFmpegStarted 3 ''best'' ''copy'' False),
        Log (StoppingPrevious 2), Terminate 2, WaitReturned 2,
      Resolve, PopenOk 4, Terminate 3, WaitReturned 3, Log (FFmpegStarted 4 ''best'' ''copy'' False),
        Log (StoppingPrevious 3), Terminate 3, WaitReturned 3]"
  by code_simp

subsection \<open>Rotation at the maximum runtime\<close>











subsection \<open>Exceptions that leave the loops\<close>

lemma sleep_raises: "sleep en dt w = (Inl e, w') \<Longrightarrow> may_escape en e"
  by (auto simp: prims may_escape_def Let_def split: if_splits)

lemma launch_raises: "launch en cfg q w = (Inl e, w') \<Longrightarrow> is_Exception e"
  by (auto simp: launch_def prims is_Exception_def Let_def split: if_splits option.splits)

lemma attempts_raises: "attempts en cfg q a n w = (Inl e, w') \<Longrightarrow> may_escape en e"
proof (induction n arbitrary: a w)
  case 0
  then show ?case by simp
next
  case (Suc n)
  obtain r1 w1 where l: "launch en cfg q w = (r1, w1)" by (cases "launch en cfg q w")
  obtain r2 w2 where s: "sleep en 3 (log (AttemptFailed a) w1) = (r2, w2)"
    by (cases "sleep en 3 (log (AttemptFailed a) w1)")
  have "(r1 = Inl e \<and> \<not> is_Exception e) \<or> r2 = Inl e \<or> attempts en cfg q (Suc a) n w2 = (Inl e, w')"
    using Suc.prems l s by (auto split: sum.splits if_splits)
  then show ?case using Suc.IH launch_raises l sleep_raises s by blast
qed

lemma start_ffmpeg_raises: "start_ffmpeg en cfg s q w = (Inl e, w') \<Longrightarrow> may_escape en e"
  by (auto simp: start_ffmpeg_def call_get_ffmpeg_path_def split: option.splits sum.splits
      dest: attempts_raises) (auto simp: may_escape_def)

lemma start_new_ffmpeg_raises:
  assumes "start_new_ffmpeg en cfg s q (r, w) = (res, r', w')" and "timed r"
  shows "timed r' \<and> (\<forall>e. res = Inl e \<longrightarrow> may_escape en e)"
proof -
  obtain r1 w1 where a: "start_ffmpeg en cfg s q w = (r1, w1)" by (cases "start_ffmpeg en cfg s q w")
  obtain r2 w2 where b: "sleep en 10 (log (FailedToStart q) w1) = (r2, w2)"
    by (cases "sleep en 10 (log (FailedToStart q) w1)")
  show ?thesis
    using assms a b start_ffmpeg_raises [of en cfg s q w _ w1] sleep_raises [of en 10 _ _ w2]
    by (auto simp: start_new_ffmpeg_def timed_def Let_def split: sum.splits option.splits)
qed

lemma pick_best_stream_total:
  assumes "streams \<noteq> []"
  shows "\<exists>kv. pick_best_stream streams = Inr kv"
proof (cases "map_of streams ''best''")
  case (Some s)
  then show ?thesis by (simp add: pick_best_stream_def)
next
  case None
  define qs where "qs = filter (\<lambda>q. list_ex isdigit q) (map fst streams)"
  show ?thesis
  proof (cases "qs = []")
    case True
    then show ?thesis using None assms
      by (cases streams) (simp_all add: pick_best_stream_def qs_def)
  next
    case False
    from greatest_of_sorted(1) [OF False] have "hd (rev (sort qs)) \<in> fst ` set streams"
      by (auto simp: qs_def)
    then obtain s where "map_of streams (hd (rev (sort qs))) = Some s"
      by (metis domD dom_map_of_conv_image_fst)
    then show ?thesis using None False
      by (simp add: pick_best_stream_def qs_def [symmetric])
  qed
qed

lemma wait_for_stream_iter_raises:
  assumes "wait_for_stream_iter en (r, w) = (res, r', w')" and "timed r"
  shows "timed r' \<and> (\<forall>e. res = Inl e \<longrightarrow> may_escape en e)"
proof -
  obtain streams w1 where a: "call_get_available_streams en w = (streams, w1)"
    by (cases "call_get_available_streams en w")
  have p: "streams \<noteq> [] \<Longrightarrow> \<exists>kv. pick_best_stream streams = Inr kv"
    by (rule pick_best_stream_total)
  show ?thesis
    using assms a p
    by (auto simp: wait_for_stream_iter_def timed_def split: sum.splits option.splits if_splits prod.splits
        dest: sleep_raises)
qed


lemma relay_iter_raises:
  assumes "relay_iter en cfg q s (r, w) = (res, r', w')" and "timed r"
  shows "timed r' \<and> (\<forall>e. res = Inl e \<longrightarrow> may_escape en e)"
proof -
  have t: "\<And>x. timed (r\<lparr>last_upgrade_logged := x\<rparr>)" using assms(2) by (simp add: timed_def)
  have h: "\<And>s q r0 w0 res0 r1 w1. start_new_ffmpeg en cfg s q (r0, w0) = (res0, r1, w1) \<Longrightarrow> timed r0
      \<Longrightarrow> timed r1 \<and> (\<forall>e. res0 = Inl e \<longrightarrow> may_escape en e)"
    by (rule start_new_ffmpeg_raises)
  show ?thesis
    using assms t
    apply (simp add: relay_iter_def call_get_available_streams_def Let_def
        split: sum.splits option.splits if_splits prod.splits)
    apply (auto dest: sleep_raises dest!: h simp: timed_def)
    done
qed

lemma step_raises:
  assumes "step en cfg c (r, w) = (res, r', w')" and "timed r"
  shows "timed r' \<and> (\<forall>e. res = Inl e \<longrightarrow> may_escape en e)"
proof (cases c)
  case AWAITING_SOURCE
  obtain r1 rr w1 where a: "wait_for_stream_iter en (r, w) = (r1, rr, w1)"
    by (cases "wait_for_stream_iter en (r, w)")
  note i = wait_for_stream_iter_raises [OF a assms(2)]
  show ?thesis
  proof (cases r1)
    case (Inl e)
    then show ?thesis using assms(1) AWAITING_SOURCE a i by (auto simp: step_def)
  next
    case (Inr o1)
    show ?thesis
    proof (cases o1)
      case None
      then show ?thesis using assms(1) AWAITING_SOURCE a i Inr by (auto simp: step_def)
    next
      case (Some qs)
      obtain q s where qs: "qs = (q, s)" by (cases qs)
      obtain r2 rr2 w2 where b: "start_new_ffmpeg en cfg s q (rr, w1) = (r2, rr2, w2)"
        by (cases "start_new_ffmpeg en cfg s q (rr, w1)")
      from start_new_ffmpeg_raises [OF b] i have "timed rr2 \<and> (\<forall>e. r2 = Inl e \<longrightarrow> may_escape en e)"
        by simp
      then show ?thesis using assms(1) AWAITING_SOURCE a Inr Some qs b
        by (auto simp: step_def split: sum.splits)
    qed
  qed
next
  case (RELAYING q s)
  obtain r1 rr w1 where a: "relay_iter en cfg q s (r, w) = (r1, rr, w1)"
    by (cases "relay_iter en cfg q s (r, w)")
  from relay_iter_raises [OF a assms(2)] show ?thesis
    using assms(1) RELAYING a by (auto simp: step_def split: sum.splits)
qed

lemma start_relay_raises:
  "start_relay n en cfg c (r, w) = (res, r', w') \<Longrightarrow> timed r
     \<Longrightarrow> timed r' \<and> (\<forall>e. res = Inl e \<longrightarrow> may_escape en e)"
proof (induction n arbitrary: c r w)
  case 0
  then show ?case by auto
next
  case (Suc n)
  obtain r1 rr w1 where s: "step en cfg c (r, w) = (r1, rr, w1)" by (cases "step en cfg c (r, w)")
  note i = step_raises [OF s Suc.prems(2)]
  show ?case
  proof (cases r1)
    case (Inl e)
    then show ?thesis using Suc.prems(1) s i by auto
  next
    case (Inr c1)
    then have "start_relay n en cfg c1 (rr, w1) = (res, r', w')" using Suc.prems(1) s by simp
    from Suc.IH [OF this] i show ?thesis by simp
  qed
qed

text \<open>
  C6, as the code has it. Whatever the resolver, \<^verbatim>\<open>to_url\<close>, \<^verbatim>\<open>Popen\<close> and the
  subprocesses do, their failures never end the process: resolver exceptions become an
  empty listing, a URL that cannot be resolved and launches that fail become a failed
  handoff, a retirement that times out becomes a failed attempt or a kill. The process
  is ended by an exception only when a lookup of the binary raises it: the call
  \<^verbatim>\<open>get_ffmpeg_path()\<close> in \<^verbatim>\<open>start_ffmpeg\<close> stands outside every \<^verbatim>\<open>try\<close>, and the
  main block catches \<^verbatim>\<open>KeyboardInterrupt\<close> alone.
\<close>

theorem only_binary_lookup_ends_process:
  assumes "main n en cfg = Crashed e r w"
  shows "e \<noteq> KeyboardInterrupt \<and> (\<exists>k. get_ffmpeg_path (files en k) = Inl e)"
proof -
  obtain res r' w' where s: "start_relay n en cfg AWAITING_SOURCE (Relay_init, log Support world_init) = (res, r', w')"
    by (cases "start_relay n en cfg AWAITING_SOURCE (Relay_init, log Support world_init)")
  have "timed Relay_init" by (simp add: timed_def Relay_init_def)
  from start_relay_raises [OF s this] have i: "\<forall>e. res = Inl e \<longrightarrow> may_escape en e" by simp
  from assms s have "res = Inl e" "e \<noteq> KeyboardInterrupt"
    by (auto simp: main_def shutdown_def Let_def split: sum.splits if_splits option.splits)
  then show ?thesis using i by (auto simp: may_escape_def)
qed

theorem only_binary_lookup_ends_process_witness:
  "main 3 binary_removed plain_config =
     Crashed RuntimeError relaying
       (world_init\<lparr>now := 30,
          events := [(Log Support, []), (Resolve, []), (Log (StreamOnline ''best''), []),
             (PopenOk 0, [0]), (Log (FFmpegStarted 0 ''best'' ''copy'' False), [0]),
             (Sleep 30, []), (Log EndedUnexpectedly, []), (Resolve, [])],
          next_proc := 1, active_processes := Some 0,
          resolver_calls := 2, path_calls := 2, popen_calls := 1, sleep_calls := 1\<rparr>)
   \<and> RuntimeError \<noteq> KeyboardInterrupt
   \<and> get_ffmpeg_path (files binary_removed 1) = Inl RuntimeError"
proof -
  have a: "main 3 binary_removed plain_config =
     Crashed RuntimeError relaying
       (world_init\<lparr>now := 30,
          events := [(Log Support, []), (Resolve, []), (Log (StreamOnline ''best''), []),
             (PopenOk 0, [0]), (Log (FFmpegStarted 0 ''best'' ''copy'' False), [0]),
             (Sleep 30, []), (Log EndedUnexpectedly, []), (Resolve, [])],
          next_proc := 1, active_processes := Some 0,
          resolver_calls := 2, path_calls := 2, popen_calls := 1, sleep_calls := 1\<rparr>)"
    by (simp add: binary_removed_def scenario run_defs prims get_ffmpeg_path_def get_available_streams_def
        best_not_audio pick_best_stream_def eval_nat_numeral)
  show ?thesis
    using only_binary_lookup_ends_process [OF a] a
    by (simp add: binary_removed_def get_ffmpeg_path_def good_files_def calm_def)
qed

text \<open>
  C6 fails on the lookup of the binary during a relaunch: the first subprocess dies, the
  loop returns to the availability loop and hands off again, the binary is no longer a
  file, \<^verbatim>\<open>get_ffmpeg_path\<close> raises \<^verbatim>\<open>RuntimeError\<close>, and nothing catches it.
\<close>

theorem binary_lookup_crash_counterexample:
  "(case main 3 binary_removed plain_config of
      Crashed e r w \<Rightarrow> e = RuntimeError \<and> live w = [] \<and>
        trace w = [Log Support, Resolve, Log (StreamOnline ''best''), PopenOk 0,
                   Log (FFmpegStarted 0 ''best'' ''copy'' False), Sleep 30,
                   Log EndedUnexpectedly, Resolve]
    | _ \<Rightarrow> False)"
  by code_simp

subsection \<open>Subprocesses running at the same time\<close>

lemma tidy_cases:
  assumes "tidy w"
  shows "live w = [] \<or> (\<exists>old. active_processes w = Some old \<and> live w = [old])"
proof (cases "live w")
  case Nil
  then show ?thesis by simp
next
  case (Cons x xs)
  then obtain old where o: "active_processes w = Some old" "x = old" "set xs \<subseteq> {old}" "old \<notin> set xs"
    using assms by (cases "active_processes w") (auto simp: tidy_def)
  then have "xs = []" by (cases xs) auto
  then show ?thesis using Cons o by simp
qed

lemma tidy_length: "tidy w \<Longrightarrow> length (live w) \<le> 1"
  using tidy_cases by fastforce

lemma log_tidy: "tidy w \<Longrightarrow> tidy (log l w) \<and> ext window w (log l w)"
  using tidy_length [of w] by (simp add: tidy_def ext_def window_def prims)

lemma sleep_tidy:
  assumes "tidy w" and "sleep en dt w = (res, w')"
  shows "tidy w' \<and> ext window w w' \<and> active_processes w' = active_processes w"
proof -
  have "length (filter (\<lambda>p. \<not> dies en (sleep_calls w) p) (live w)) \<le> 1"
    using tidy_length [OF assms(1)] by (meson le_trans length_filter_le)
  then show ?thesis
    using assms tidy_length [OF assms(1)]
    by (auto simp: tidy_def ext_def window_def prims Let_def split: if_splits)
qed

lemma launch_tidy:
  assumes "\<forall>p. on_sigterm en p = ExitsInTime" and "tidy w" and "launch en cfg q w = (res, w')"
  shows "tidy w' \<and> ext window w w'
     \<and> (case res of Inl e \<Rightarrow> active_processes w' = active_processes w
         | Inr p \<Rightarrow> active_processes w' = Some p)"
  using tidy_cases [OF assms(2)] assms
  by (auto simp: launch_def tidy_def ext_def window_def prims Let_def split: if_splits option.splits)


lemma attempts_tidy:
  assumes "\<forall>p. on_sigterm en p = ExitsInTime"
  shows "tidy w \<Longrightarrow> attempts en cfg q a n w = (res, w') \<Longrightarrow>
     tidy w' \<and> ext window w w'
     \<and> (case res of Inr (Some p) \<Rightarrow> active_processes w' = Some p
         | _ \<Rightarrow> active_processes w' = active_processes w)"
proof (induction n arbitrary: a w)
  case 0
  then show ?case by (auto simp: ext_refl)
next
  case (Suc n)
  obtain r1 w1 where l: "launch en cfg q w = (r1, w1)" by (cases "launch en cfg q w")
  note i1 = launch_tidy [OF assms Suc.prems(1) l]
  show ?case
  proof (cases r1)
    case (Inr p)
    then show ?thesis using Suc.prems(2) l i1 by auto
  next
    case (Inl e)
    obtain r2 w2 where s: "sleep en 3 (log (AttemptFailed a) w1) = (r2, w2)"
      by (cases "sleep en 3 (log (AttemptFailed a) w1)")
    have t1: "tidy (log (AttemptFailed a) w1)" "ext window w1 (log (AttemptFailed a) w1)"
      using log_tidy i1 by blast+
    note i2 = sleep_tidy [OF t1(1) s]
    have e2: "ext window w w2" using i1 t1(2) i2 ext_trans by blast
    have a2: "active_processes w2 = active_processes w"
      using i1 i2 Inl by (simp add: prims)
    show ?thesis
    proof (cases "is_Exception e \<and> r2 = Inr ()")
      case True
      then have "attempts en cfg q (Suc a) n w2 = (res, w')" using Suc.prems(2) l Inl s by simp
      from Suc.IH [OF _ this] i2 have "tidy w' \<and> ext window w2 w'
         \<and> (case res of Inr (Some p) \<Rightarrow> active_processes w' = Some p
         | _ \<Rightarrow> active_processes w' = active_processes w2)" by simp
      then show ?thesis using e2 a2 ext_trans by (auto split: sum.splits option.splits)
    next
      case False
      then have "(res = Inl e \<and> w' = w1) \<or> (\<exists>e'. res = Inl e' \<and> w' = w2)"
        using Suc.prems(2) l Inl s by (auto split: if_splits sum.splits)
      then show ?thesis using i1 i2 e2 a2 Inl by auto
    qed
  qed
qed

lemma start_ffmpeg_tidy:
  assumes "\<forall>p. on_sigterm en p = ExitsInTime" and "tidy w"
    and "start_ffmpeg en cfg s q w = (res, w')"
  shows "tidy w' \<and> ext window w w'
     \<and> (case res of Inr (Some p) \<Rightarrow> active_processes w' = Some p
         | _ \<Rightarrow> active_processes w' = active_processes w)"
proof (cases "to_url s")
  case None
  then show ?thesis using assms(3) log_tidy [OF assms(2)] by (auto simp: start_ffmpeg_def prims)
next
  case (Some u)
  define w0 where "w0 = w\<lparr>path_calls := Suc (path_calls w)\<rparr>"
  have t0: "tidy w0" "events w0 = events w" "active_processes w0 = active_processes w"
    using assms(2) by (simp_all add: w0_def tidy_def)
  show ?thesis
  proof (cases "get_ffmpeg_path (files en (path_calls w))")
    case (Inl e)
    then show ?thesis using assms(3) Some t0
      by (auto simp: start_ffmpeg_def call_get_ffmpeg_path_def w0_def [symmetric] ext_def)
  next
    case (Inr path)
    then have "attempts en cfg q 1 3 w0 = (res, w')"
      using assms(3) Some by (simp add: start_ffmpeg_def call_get_ffmpeg_path_def w0_def)
    from attempts_tidy [OF assms(1) t0(1) this] show ?thesis
      using t0(2,3) by (auto simp: ext_def split: sum.splits option.splits)
  qed
qed

lemma start_new_ffmpeg_settled:
  assumes "\<forall>p. on_sigterm en p = ExitsInTime" and "settled r w"
    and "start_new_ffmpeg en cfg s q (r, w) = (res, r', w')"
  shows "settled r' w' \<and> ext window w w'"
proof -
  obtain r1 w1 where a: "start_ffmpeg en cfg s q w = (r1, w1)" by (cases "start_ffmpeg en cfg s q w")
  have tw: "tidy w" using assms(2) by (simp add: settled_def)
  note i1 = start_ffmpeg_tidy [OF assms(1) tw a]
  show ?thesis
  proof (cases r1)
    case (Inl e)
    then show ?thesis using assms(2,3) a i1 by (auto simp: start_new_ffmpeg_def settled_def)
  next
    case (Inr o1)
    show ?thesis
    proof (cases o1)
      case None
      obtain r2 w2 where b: "sleep en 10 (log (FailedToStart q) w1) = (r2, w2)"
        by (cases "sleep en 10 (log (FailedToStart q) w1)")
      have t1: "tidy (log (FailedToStart q) w1)" "ext window w1 (log (FailedToStart q) w1)"
        using log_tidy i1 by blast+
      note i2 = sleep_tidy [OF t1(1) b]
      have "ext window w w2" using i1 t1(2) i2 ext_trans by blast
      moreover have "active_processes w2 = active_processes w"
        using i1 i2 Inr None by (simp add: prims)
      ultimately show ?thesis using assms(2,3) a Inr None b i2
        by (auto simp: start_new_ffmpeg_def settled_def)
    next
      case (Some new)
      then have an: "active_processes w1 = Some new" and t1: "tidy w1" and e1: "ext window w w1"
        using i1 Inr by simp_all
      have l1: "length (live w1) \<le> 1" using tidy_length t1 by blast
      have nl: "\<And>cur. cur \<noteq> new \<Longrightarrow> cur \<notin> set (live w1)"
        using t1 an by (auto simp: tidy_def)
      have "tidy w' \<and> active_processes w' = Some new \<and> ext window w1 w' \<and> current_ffmpeg r' = Some new"
        using assms(3) a Inr Some t1 an l1 nl
        by (auto simp: start_new_ffmpeg_def tidy_def ext_def window_def prims Let_def
            split: option.splits if_splits)
      then show ?thesis using e1 ext_trans by (auto simp: settled_def)
    qed
  qed
qed


lemma settled_simps:
  "settled (r\<lparr>last_upgrade_logged := x\<rparr>) w = settled r w"
  "settled (r\<lparr>last_stream_status := y\<rparr>) w = settled r w"
  by (simp_all add: settled_def)

lemma settled_log: "settled r w \<Longrightarrow> settled r (log l w) \<and> ext window w (log l w)"
  using log_tidy [of w l] by (simp add: settled_def prims)

lemma settled_sleep:
  "settled r w \<Longrightarrow> sleep en dt w = (res, w') \<Longrightarrow> settled r w' \<and> ext window w w'"
  using sleep_tidy [of w en dt res w'] by (simp add: settled_def)

lemma settled_resolve:
  "settled r w \<Longrightarrow> call_get_available_streams en w = (streams, w')
     \<Longrightarrow> settled r w' \<and> ext window w w'"
  using tidy_length [of w]
  by (auto simp: call_get_available_streams_def settled_def tidy_def ext_def window_def prims)

lemma wait_for_stream_iter_settled:
  assumes "settled r w" and "wait_for_stream_iter en (r, w) = (res, r', w')"
  shows "settled r' w' \<and> ext window w w'"
proof -
  obtain streams w1 where a: "call_get_available_streams en w = (streams, w1)"
    by (cases "call_get_available_streams en w")
  note i1 = settled_resolve [OF assms(1) a]
  have l: "\<And>l r0. settled r0 w1 \<Longrightarrow> settled r0 (log l w1) \<and> ext window w1 (log l w1)"
    by (rule settled_log)
  obtain r2 w2 where b: "sleep en 15 w1 = (r2, w2)" by (cases "sleep en 15 w1")
  obtain r3 w3 where c: "sleep en 15 (log WaitingForStream w1) = (r3, w3)"
    by (cases "sleep en 15 (log WaitingForStream w1)")
  have s2: "settled r w2 \<and> ext window w1 w2" using settled_sleep [OF _ b] i1 by blast
  have s3: "\<And>y. settled (r\<lparr>last_stream_status := y\<rparr>) w3 \<and> ext window w1 w3"
    using settled_sleep [OF _ c] l [of r WaitingForStream] i1 ext_trans
    by (metis settled_simps(2))
  have "settled r' w' \<and> ext window w1 w'"
    using assms(2) a b c i1 l [of r] s2 s3
    by (auto simp: wait_for_stream_iter_def settled_simps ext_refl
        split: sum.splits option.splits if_splits prod.splits)
  then show ?thesis using i1 ext_trans by blast
qed


lemma relay_iter_settled:
  assumes "\<forall>p. on_sigterm en p = ExitsInTime" and "settled r w"
    and "relay_iter en cfg q s (r, w) = (res, r', w')"
  shows "settled r' w' \<and> ext window w w'"
proof -
  obtain r1 w1 where a: "sleep en 30 w = (r1, w1)" by (cases "sleep en 30 w")
  note i1 = settled_sleep [OF assms(2) a]
  obtain streams w2 where b: "call_get_available_streams en w1 = (streams, w2)"
    by (cases "call_get_available_streams en w1")
  have i2: "settled r w2 \<and> ext window w1 w2" using settled_resolve [OF _ b] i1 by blast
  have H2: "\<And>s q r0 w0 x r9 w9. start_new_ffmpeg en cfg s q (r0, w0) = (x, r9, w9)
      \<Longrightarrow> settled r0 w0 \<and> ext window w1 w0 \<Longrightarrow> settled r9 w9 \<and> ext window w1 w9"
    using start_new_ffmpeg_settled [OF assms(1)] ext_trans by blast
  have m: "settled r (log MaxRuntimeReached w1) \<and> ext window w1 (log MaxRuntimeReached w1)"
    using settled_log i1 by blast
  have e: "settled r (log EndedUnexpectedly w1) \<and> ext window w1 (log EndedUnexpectedly w1)"
    using settled_log i1 by blast
  have u: "settled (r\<lparr>last_upgrade_logged := True\<rparr>) (log HigherQualityAvailable w2)
      \<and> ext window w1 (log HigherQualityAvailable w2)"
    using settled_log [of r w2] i2 ext_trans by (auto simp: settled_simps)
  have o: "settled r (log StreamOffline w2) \<and> ext window w1 (log StreamOffline w2)"
    using settled_log [of r w2] i2 ext_trans by blast
  have "settled r' w' \<and> ext window w1 w'"
  proof (cases r1)
    case (Inl x)
    then show ?thesis using assms(3) a i1 by (auto simp: relay_iter_def ext_refl)
  next
    case (Inr y)
    show ?thesis
      using assms(3) a b Inr i1 i2 m e u o
      apply (simp add: relay_iter_def settled_simps ext_refl Let_def split: if_splits option.splits)
      apply (auto simp: settled_simps ext_refl Let_def split: sum.splits prod.splits if_splits dest!: H2)
      done
  qed
  then show ?thesis using i1 ext_trans by blast
qed


lemma step_settled:
  assumes "\<forall>p. on_sigterm en p = ExitsInTime" and "settled r w"
    and "step en cfg c (r, w) = (res, r', w')"
  shows "settled r' w' \<and> ext window w w'"
proof (cases c)
  case AWAITING_SOURCE
  obtain r1 rr w1 where a: "wait_for_stream_iter en (r, w) = (r1, rr, w1)"
    by (cases "wait_for_stream_iter en (r, w)")
  note i = wait_for_stream_iter_settled [OF assms(2) a]
  have H2: "\<And>s q x r9 w9. start_new_ffmpeg en cfg s q (rr, w1) = (x, r9, w9)
      \<Longrightarrow> settled r9 w9 \<and> ext window w w9"
    using start_new_ffmpeg_settled [OF assms(1)] i ext_trans by blast
  show ?thesis
    using assms(3) AWAITING_SOURCE a i
    by (auto simp: step_def split: sum.splits option.splits prod.splits dest!: H2)
next
  case (RELAYING q s)
  obtain r1 rr w1 where a: "relay_iter en cfg q s (r, w) = (r1, rr, w1)"
    by (cases "relay_iter en cfg q s (r, w)")
  from relay_iter_settled [OF assms(1,2) a] show ?thesis
    using assms(3) RELAYING a by (auto simp: step_def split: sum.splits)
qed

lemma start_relay_settled:
  assumes "\<forall>p. on_sigterm en p = ExitsInTime"
  shows "settled r w \<Longrightarrow> start_relay n en cfg c (r, w) = (res, r', w')
     \<Longrightarrow> settled r' w' \<and> ext window w w'"
proof (induction n arbitrary: c r w)
  case 0
  then show ?case by (auto simp: ext_refl)
next
  case (Suc n)
  obtain r1 rr w1 where s: "step en cfg c (r, w) = (r1, rr, w1)" by (cases "step en cfg c (r, w)")
  note i = step_settled [OF assms Suc.prems(1) s]
  show ?case
  proof (cases r1)
    case (Inl e)
    then show ?thesis using Suc.prems(2) s i by auto
  next
    case (Inr c1)
    then have "start_relay n en cfg c1 (rr, w1) = (res, r', w')" using Suc.prems(2) s by simp
    from Suc.IH [OF _ this] i show ?thesis using ext_trans by blast
  qed
qed

lemma settled_init: "settled Relay_init (log Support world_init)"
  by (simp add: settled_def tidy_def Relay_init_def world_init_def prims)

text \<open>
  C1, as the code has it. Suppose every subprocess exits within the 10 seconds of the
  wait once it is sent the termination signal. Then a handoff from a settled state ends in
  a settled state, and in every execution of the script from its start at most one
  subprocess runs at every control point, the recorded one, and at every entry of the
  trace at most one runs, except that two run from the start of a new subprocess until
  the previous one has exited: the handoff starts the new subprocess first and retires
  the previous one after.
\<close>

theorem one_live_outside_handoff:
  assumes "\<forall>p. on_sigterm en p = ExitsInTime"
  shows "(settled r w \<longrightarrow>
            (case start_new_ffmpeg en cfg stream quality (r, w) of
               (res, r', w') \<Rightarrow> settled r' w' \<and> ext window w w'))
       \<and> (case start_relay n en cfg AWAITING_SOURCE (Relay_init, log Support world_init) of
             (res, r', w') \<Rightarrow>
               length (live w') \<le> 1 \<and> set (live w') \<subseteq> set_option (current_ffmpeg r')
               \<and> list_all window (events w'))
       \<and> length (live (world_of (main n en cfg))) \<le> 1
       \<and> list_all window (events (world_of (main n en cfg)))"
proof -
  obtain res r' w' where s: "start_relay n en cfg AWAITING_SOURCE (Relay_init, log Support world_init) = (res, r', w')"
    by (cases "start_relay n en cfg AWAITING_SOURCE (Relay_init, log Support world_init)")
  from start_relay_settled [OF assms settled_init s]
  have i: "settled r' w'" "ext window (log Support world_init) w'" by simp_all
  have l: "length (live w') \<le> 1" using i(1) tidy_length by (simp add: settled_def)
  have sub: "set (live w') \<subseteq> set_option (current_ffmpeg r')"
    using i(1) by (simp add: settled_def tidy_def)
  have ev: "list_all window (events w')"
    using i(2) by (auto simp: ext_def prims world_init_def window_def)
  have rm: "\<And>p. length (removeAll p (live w')) \<le> 1"
    using l by (meson le_trans length_removeAll_less_eq)
  have m: "length (live (world_of (main n en cfg))) \<le> 1
       \<and> list_all window (events (world_of (main n en cfg)))"
    using s l ev rm
    by (auto simp: main_def shutdown_def world_of_def wait_forever_def window_def prims Let_def
        split: sum.splits option.splits if_splits)
  have h: "settled r w \<longrightarrow>
            (case start_new_ffmpeg en cfg stream quality (r, w) of
               (res, r', w') \<Rightarrow> settled r' w' \<and> ext window w w')"
    using start_new_ffmpeg_settled [OF assms] by (auto split: prod.splits)
  show ?thesis using h s l sub ev m by simp
qed

theorem one_live_outside_handoff_witness:
  "(\<forall>p. on_sigterm calm p = ExitsInTime)
   \<and> settled relaying (relaying_world 0)
   \<and> events (snd (snd (start_new_ffmpeg calm plain_config plain_variant ''best'' (relaying, relaying_world 0))))
       = [(PopenOk 1, [0, 1]), (Terminate 0, [0, 1]), (WaitReturned 0, [1]),
          (Log (FFmpegStarted 1 ''best'' ''copy'' False), [1]), (Log (StoppingPrevious 0), [1]),
          (Terminate 0, [1]), (WaitReturned 0, [1])]
   \<and> live (snd (snd (start_new_ffmpeg calm plain_config plain_variant ''best'' (relaying, relaying_world 0)))) = [1]
   \<and> live (world_of (main 2 calm plain_config)) = [0]
   \<and> list_all window (events (world_of (main 2 calm plain_config)))"
  using one_live_outside_handoff [of calm relaying "relaying_world 0" plain_config plain_variant "''best''" 2]
  by (simp add: scenario run_defs prims get_ffmpeg_path_def get_available_streams_def best_not_audio
      pick_best_stream_def world_of_def settled_def tidy_def eval_nat_numeral)

text \<open>
  C1 fails during every handoff that replaces a running subprocess: the new subprocess
  is started before the previous one is told to stop, and both run until the previous
  one exits.
\<close>

theorem handoff_overlap_counterexample:
  "take 2 (events (snd (snd (start_new_ffmpeg calm plain_config plain_variant ''best''
       (relaying, relaying_world 0)))))
     = [(PopenOk 1, [0, 1]), (Terminate 0, [0, 1])]"
  by code_simp

end
